theory Spec2Isabelle
  imports Main "HOL-Library.Sublist" "HOL-Library.Char_ord" "HOL-Library.List_Lexorder"
begin

section \<open>kvbase: two key-value adapters behind one CRUD contract\<close>

text \<open>
  The repository wraps two embedded storage engines: \<open>BboltBackend\<close> (file
  \<open>bboltdb.go\<close>, on go.etcd.io/bbolt) and \<open>LevelBackend\<close> (on goleveldb). Go strings
  and byte slices are byte sequences, modelled as \<open>string\<close>; \<open>[]byte(s)\<close> and
  \<open>string(b)\<close> are the identity. Both engines keep their keys in bytewise
  lexicographic order, which is the order of \<open>string\<close> here.

  The engines and \<open>encoding/json\<close> are third-party libraries. The calls the adapters
  make into the engines are modelled after the libraries' documented behaviour on a
  healthy store (no I/O failure, no closed handle); \<open>json.Marshal\<close> and
  \<open>json.Unmarshal\<close> are parameters \<open>marshal\<close> and \<open>unmarshal\<close> of every
  operation that calls them.
\<close>

subsection \<open>Errors\<close>

datatype error =
    KeyAlreadyExists        \<comment> \<open>\<open>errors.New("key already exists")\<close>, both adapters\<close>
  | KeyDoesNotExist         \<comment> \<open>\<open>errors.New("key does not exist")\<close>, \<open>BboltBackend.view\<close>\<close>
  | ErrNotFound             \<comment> \<open>\<open>leveldb.ErrNotFound\<close>, from \<open>db.Get\<close>\<close>
  | ErrBucketNameRequired   \<comment> \<open>bbolt, creating a bucket with an empty name\<close>
  | ErrBucketNotFound       \<comment> \<open>bbolt, deleting a bucket that is not there\<close>
  | ErrKeyRequired          \<comment> \<open>bbolt, \<open>Put\<close> with an empty key\<close>
  | ErrKeyTooLarge          \<comment> \<open>bbolt, \<open>Put\<close> with a key above \<open>MaxKeySize\<close>\<close>
  | ErrValueTooLarge        \<comment> \<open>bbolt, \<open>Put\<close> with a value above \<open>MaxValueSize\<close>\<close>
  | JsonError string        \<comment> \<open>an error of \<open>json.Marshal\<close> or \<open>json.Unmarshal\<close>\<close>
  | NilDereference          \<comment> \<open>the panic of a method call on a nil \<open>*bbolt.Bucket\<close>\<close>
  | SliceBoundsPanic        \<comment> \<open>bbolt, the panic of a slice beyond \<open>maxAllocSize\<close> bytes\<close>

text \<open>
  The spec's \<open>AlreadyExists\<close> is \<open>KeyAlreadyExists\<close>; its \<open>NotFound\<close> is
  \<open>KeyDoesNotExist\<close> on the bbolt adapter and \<open>ErrNotFound\<close> on the LevelDB adapter.
\<close>

subsection \<open>Ordered key-value tables\<close>

text \<open>
  A table is the list of its entries in ascending key order. \<open>kv_put\<close> inserts or
  replaces, \<open>kv_delete\<close> removes; \<open>kv_inv\<close> says that the keys are strictly
  ascending (hence unique).
\<close>

type_synonym 'v table = "(string \<times> 'v) list"

fun kv_put :: "string \<Rightarrow> 'v \<Rightarrow> 'v table \<Rightarrow> 'v table" where
  "kv_put k v [] = [(k, v)]"
| "kv_put k v ((k', v') # xs) =
     (if k < k' then (k, v) # (k', v') # xs
      else if k = k' then (k, v) # xs
      else (k', v') # kv_put k v xs)"

definition kv_delete :: "string \<Rightarrow> 'v table \<Rightarrow> 'v table" where
  "kv_delete k xs = filter (\<lambda>kv. fst kv \<noteq> k) xs"

definition kv_inv :: "'v table \<Rightarrow> bool" where
  "kv_inv xs = sorted_wrt (<) (map fst xs)"

subsection \<open>The LevelDB engine\<close>

type_synonym leveldb = "string table"

definition ldb_Get :: "leveldb \<Rightarrow> string \<Rightarrow> error + string" where
  \<comment> \<open>\<open>db.Get(key, nil)\<close>: the value, or \<open>ErrNotFound\<close>\<close>
  "ldb_Get db k = (case map_of db k of None \<Rightarrow> Inl ErrNotFound | Some d \<Rightarrow> Inr d)"

definition ldb_Put :: "string \<Rightarrow> string \<Rightarrow> leveldb \<Rightarrow> leveldb" where
  \<comment> \<open>\<open>db.Put(key, value, nil)\<close>\<close>
  "ldb_Put k d db = kv_put k d db"

definition ldb_Delete :: "string \<Rightarrow> leveldb \<Rightarrow> leveldb" where
  \<comment> \<open>\<open>db.Delete(key, nil)\<close>; deleting an absent key is not an error\<close>
  "ldb_Delete k db = kv_delete k db"

definition ldb_NewIterator :: "string \<Rightarrow> leveldb \<Rightarrow> (string \<times> string) list" where
  \<comment> \<open>\<open>db.NewIterator(util.BytesPrefix(p), nil)\<close>: the entries whose key starts with
      \<open>p\<close>, in key order, read from a snapshot taken at the call\<close>
  "ldb_NewIterator p db = filter (\<lambda>kv. prefix p (fst kv)) db"

subsection \<open>The LevelDB adapter\<close>

definition TrimPrefix :: "string \<Rightarrow> string \<Rightarrow> string" where
  \<comment> \<open>\<open>strings.TrimPrefix(s, p)\<close>\<close>
  "TrimPrefix s p = (if prefix p s then drop (length p) s else s)"

fun Level_Count_loop :: "(string \<times> string) list \<Rightarrow> nat \<Rightarrow> nat" where
  "Level_Count_loop [] counter = counter"
| "Level_Count_loop (kv # iter) counter = Level_Count_loop iter (counter + 1)"

definition Level_Count :: "string \<Rightarrow> leveldb \<Rightarrow> nat \<times> error option" where
  "Level_Count bucket db =
     (Level_Count_loop (ldb_NewIterator (bucket @ ''_'') db) 0, None)"

definition Level_Create ::
  "('v \<Rightarrow> string + string) \<Rightarrow> string \<Rightarrow> string \<Rightarrow> 'v \<Rightarrow> leveldb \<Rightarrow> error option \<times> leveldb" where
  "Level_Create marshal bucket key model db =
     (case ldb_Get db (bucket @ ''_'' @ key) of
        Inr _ \<Rightarrow> (Some KeyAlreadyExists, db)
      | Inl _ \<Rightarrow>
          (case marshal model of
             Inl msg \<Rightarrow> (Some (JsonError msg), db)
           | Inr data \<Rightarrow> (None, ldb_Put (bucket @ ''_'' @ key) data db)))"

definition Level_Delete :: "string \<Rightarrow> string \<Rightarrow> leveldb \<Rightarrow> error option \<times> leveldb" where
  "Level_Delete bucket key db =
     (case ldb_Get db (bucket @ ''_'' @ key) of
        Inl err \<Rightarrow> (Some err, db)
      | Inr _ \<Rightarrow> (None, ldb_Delete (bucket @ ''_'' @ key) db))"

fun Level_Drop_loop :: "(string \<times> string) list \<Rightarrow> leveldb \<Rightarrow> leveldb" where
  "Level_Drop_loop [] db = db"
| "Level_Drop_loop (kv # iter) db = Level_Drop_loop iter (ldb_Delete (fst kv) db)"

definition Level_Drop :: "string \<Rightarrow> leveldb \<Rightarrow> error option \<times> leveldb" where
  "Level_Drop bucket db =
     (None, Level_Drop_loop (ldb_NewIterator (bucket @ ''_'') db) db)"

text \<open>
  \<open>Get\<close> decodes every record into the one variable \<open>model\<close> and stores \<open>model\<close>
  under the trimmed key. \<open>unmarshal data model\<close> is the content of \<open>model\<close> after
  \<open>json.Unmarshal(data, &model)\<close>, or the error; the mapping holds the content at
  the time of the assignment. (When the caller passes a pointer, the Go mapping's
  entries all hold that pointer, whose target ends as the last decoded content.)
\<close>

fun Level_Get_loop ::
  "(string \<Rightarrow> 'm \<Rightarrow> string + 'm) \<Rightarrow> string \<Rightarrow> (string \<times> string) list \<Rightarrow> 'm \<Rightarrow>
   (string \<rightharpoonup> 'm) \<Rightarrow> error + (string \<rightharpoonup> 'm)" where
  "Level_Get_loop unmarshal bucket [] model results = Inr results"
| "Level_Get_loop unmarshal bucket (kv # iter) model results =
     (let key = TrimPrefix (fst kv) (bucket @ ''_'') in
      case unmarshal (snd kv) model of
        Inl msg \<Rightarrow> Inl (JsonError msg)
      | Inr model' \<Rightarrow> Level_Get_loop unmarshal bucket iter model' (results(key \<mapsto> model')))"

definition Level_Get ::
  "(string \<Rightarrow> 'm \<Rightarrow> string + 'm) \<Rightarrow> string \<Rightarrow> 'm \<Rightarrow> leveldb \<Rightarrow> error + (string \<rightharpoonup> 'm)" where
  "Level_Get unmarshal bucket model db =
     Level_Get_loop unmarshal bucket (ldb_NewIterator (bucket @ ''_'') db) model Map.empty"

definition Level_Read ::
  "(string \<Rightarrow> 'm \<Rightarrow> string + 'm) \<Rightarrow> string \<Rightarrow> string \<Rightarrow> 'm \<Rightarrow> leveldb \<Rightarrow> error + 'm" where
  "Level_Read unmarshal bucket key model db =
     (case ldb_Get db (bucket @ ''_'' @ key) of
        Inl err \<Rightarrow> Inl err
      | Inr data \<Rightarrow>
          (case unmarshal data model of
             Inl msg \<Rightarrow> Inl (JsonError msg)
           | Inr model' \<Rightarrow> Inr model'))"

definition Level_Update ::
  "('v \<Rightarrow> string + string) \<Rightarrow> string \<Rightarrow> string \<Rightarrow> 'v \<Rightarrow> leveldb \<Rightarrow> error option \<times> leveldb" where
  "Level_Update marshal bucket key model db =
     (case ldb_Get db (bucket @ ''_'' @ key) of
        Inl err \<Rightarrow> (Some err, db)
      | Inr _ \<Rightarrow>
          (case marshal model of
             Inl msg \<Rightarrow> (Some (JsonError msg), db)
           | Inr data \<Rightarrow> (None, ldb_Put (bucket @ ''_'' @ key) data db)))"

subsection \<open>The bbolt engine\<close>

text \<open>
  A bbolt store is a table of buckets, each a table of values. The adapter never nests
  buckets, so a bucket's entries are all key-value pairs. \<open>db.Update(fn)\<close> commits
  what \<open>fn\<close> did when \<open>fn\<close> returns nil and rolls it back otherwise;
  \<open>db.View(fn)\<close> changes nothing. The bytes that \<open>view\<close> hands out are read by
  its callers after the transaction has ended; the model takes them to be the stored
  bytes.

  The engine reaches the bytes of a page through slices of an array of
  \<open>maxAllocSize\<close> bytes, and a slice that would end beyond it panics. A commit
  writes each record of a changed bucket through such a slice of the length of its key
  and value. A read slices the value out of its leaf page, where it lies behind the
  16-byte element headers and the records stored before it: \<open>bucket_bytes\<close> bounds
  where any value of the bucket ends, whatever the layout of its pages.
  \<open>bucket_Get\<close> is the read of a bucket within that bound.
\<close>

type_synonym bucket = "string table"
type_synonym bbolt = "bucket table"

definition MaxKeySize :: nat where
  "MaxKeySize = 32768"

definition MaxValueSize :: nat where
  \<comment> \<open>\<open>(1 << 31) - 2\<close>\<close>
  "MaxValueSize = 2147483646"

definition maxAllocSize :: nat where
  \<comment> \<open>\<open>0x7FFFFFFF\<close>\<close>
  "maxAllocSize = 2147483647"

definition leafPageElementSize :: nat where
  "leafPageElementSize = 16"

definition bucket_bytes :: "bucket \<Rightarrow> nat" where
  \<comment> \<open>the element headers, keys and values of a bucket's records\<close>
  "bucket_bytes b =
     sum_list (map (\<lambda>kv. leafPageElementSize + length (fst kv) + length (snd kv)) b)"

definition tx_CreateBucketIfNotExists :: "string \<Rightarrow> bbolt \<Rightarrow> error + bbolt" where
  "tx_CreateBucketIfNotExists name db =
     (if name = [] then Inl ErrBucketNameRequired
      else case map_of db name of
             Some _ \<Rightarrow> Inr db
           | None \<Rightarrow> Inr (kv_put name [] db))"

definition tx_Bucket :: "string \<Rightarrow> bbolt \<Rightarrow> bucket option" where
  \<comment> \<open>\<open>tx.Bucket(name)\<close>: nil when there is no such bucket\<close>
  "tx_Bucket name db = map_of db name"

definition tx_DeleteBucket :: "string \<Rightarrow> bbolt \<Rightarrow> error + bbolt" where
  "tx_DeleteBucket name db =
     (case map_of db name of
        None \<Rightarrow> Inl ErrBucketNotFound
      | Some _ \<Rightarrow> Inr (kv_delete name db))"

definition bucket_Get :: "string \<Rightarrow> bucket \<Rightarrow> string option" where
  \<comment> \<open>\<open>b.Get(key)\<close>: nil when the key is not in the bucket; for a bucket of at most
      \<open>maxAllocSize\<close> bytes (\<open>bucket_bytes\<close>), beyond which the engine's slice of
      the value can panic\<close>
  "bucket_Get key b = map_of b key"

definition bucket_Put :: "string \<Rightarrow> string \<Rightarrow> bucket \<Rightarrow> error + bucket" where
  "bucket_Put key data b =
     (if key = [] then Inl ErrKeyRequired
      else if length key > MaxKeySize then Inl ErrKeyTooLarge
      else if length data > MaxValueSize then Inl ErrValueTooLarge
      else Inr (kv_put key data b))"

definition bucket_Delete :: "string \<Rightarrow> bucket \<Rightarrow> bucket" where
  \<comment> \<open>\<open>b.Delete(key)\<close>; deleting an absent key is not an error\<close>
  "bucket_Delete key b = kv_delete key b"

definition bucket_KeyN :: "bucket \<Rightarrow> nat" where
  \<comment> \<open>\<open>b.Stats().KeyN\<close>: the number of key-value pairs\<close>
  "bucket_KeyN b = length b"

definition bbolt_inv :: "bbolt \<Rightarrow> bool" where
  \<comment> \<open>what holds of every store: bucket names are unique and not empty, and the keys
      of a bucket are unique\<close>
  "bbolt_inv db = (kv_inv db \<and> list_all (\<lambda>nb. fst nb \<noteq> [] \<and> kv_inv (snd nb)) db)"

subsection \<open>The bbolt adapter\<close>

definition Bbolt_checkBucket :: "string \<Rightarrow> bbolt \<Rightarrow> error option \<times> bbolt" where
  "Bbolt_checkBucket bucket db =
     (case tx_CreateBucketIfNotExists bucket db of
        Inl err \<Rightarrow> (Some err, db)
      | Inr db' \<Rightarrow> (None, db'))"

definition Bbolt_view :: "string \<Rightarrow> string \<Rightarrow> bbolt \<Rightarrow> (error + string) \<times> bbolt" where
  "Bbolt_view bucket key db =
     (case Bbolt_checkBucket bucket db of
        (Some err, db') \<Rightarrow> (Inl err, db')
      | (None, db') \<Rightarrow>
          (case tx_Bucket bucket db' of
             None \<Rightarrow> (Inl NilDereference, db')
           | Some b \<Rightarrow>
               (case bucket_Get key b of
                  None \<Rightarrow> (Inl KeyDoesNotExist, db')
                | Some data \<Rightarrow> (Inr data, db'))))"

text \<open>
  In \<open>write\<close> the function passed to \<open>db.Update\<close> returns what \<open>b.Put\<close>
  returns. On nil the transaction commits, and the commit panics when the key and the
  value together are longer than \<open>maxAllocSize\<close>; the panic leaves \<open>write\<close> and
  its caller, and the transaction is rolled back.
\<close>

definition Bbolt_write ::
  "('v \<Rightarrow> string + string) \<Rightarrow> string \<Rightarrow> string \<Rightarrow> 'v \<Rightarrow> bbolt \<Rightarrow> error option \<times> bbolt" where
  "Bbolt_write marshal bucket key model db =
     (case marshal model of
        Inl msg \<Rightarrow> (Some (JsonError msg), db)
      | Inr data \<Rightarrow>
          (case Bbolt_checkBucket bucket db of
             (Some err, db') \<Rightarrow> (Some err, db')
           | (None, db') \<Rightarrow>
               (case tx_Bucket bucket db' of
                  None \<Rightarrow> (Some NilDereference, db')
                | Some b \<Rightarrow>
                    (case bucket_Put key data b of
                       Inl err \<Rightarrow> (Some err, db')
                     | Inr b' \<Rightarrow>
                         (if length key + length data > maxAllocSize
                          then (Some SliceBoundsPanic, db')
                          else (None, kv_put bucket b' db'))))))"

text \<open>
  \<open>Count\<close> ends with \<open>return counter, db.View(...)\<close>, where the function passed to
  \<open>View\<close> assigns \<open>counter\<close>. The model returns the assigned value, as the Go
  compiler does (it runs the call before it reads the variable).
\<close>

definition Bbolt_Count :: "string \<Rightarrow> bbolt \<Rightarrow> (nat \<times> error option) \<times> bbolt" where
  "Bbolt_Count bucket db =
     (case Bbolt_checkBucket bucket db of
        (Some err, db') \<Rightarrow> ((0, Some err), db')
      | (None, db') \<Rightarrow>
          (case tx_Bucket bucket db' of
             None \<Rightarrow> ((0, Some NilDereference), db')
           | Some b \<Rightarrow> ((bucket_KeyN b, None), db')))"

definition Bbolt_Create ::
  "('v \<Rightarrow> string + string) \<Rightarrow> string \<Rightarrow> string \<Rightarrow> 'v \<Rightarrow> bbolt \<Rightarrow> error option \<times> bbolt" where
  "Bbolt_Create marshal bucket key model db =
     (case Bbolt_view bucket key db of
        (Inr _, db') \<Rightarrow> (Some KeyAlreadyExists, db')
      | (Inl _, db') \<Rightarrow> Bbolt_write marshal bucket key model db')"

definition Bbolt_Delete :: "string \<Rightarrow> string \<Rightarrow> bbolt \<Rightarrow> error option \<times> bbolt" where
  "Bbolt_Delete bucket key db =
     (case Bbolt_view bucket key db of
        (Inl err, db') \<Rightarrow> (Some err, db')
      | (Inr _, db') \<Rightarrow>
          (case tx_Bucket bucket db' of
             None \<Rightarrow> (Some NilDereference, db')
           | Some b \<Rightarrow> (None, kv_put bucket (bucket_Delete key b) db')))"

definition Bbolt_Drop :: "string \<Rightarrow> bbolt \<Rightarrow> error option \<times> bbolt" where
  "Bbolt_Drop bucket db =
     (case tx_DeleteBucket bucket db of
        Inl err \<Rightarrow> (Some err, db)
      | Inr db' \<Rightarrow> (None, db'))"

text \<open>
  The loop of \<open>b.ForEach\<close> in \<open>Get\<close>, in key order; it stops at the first error, and
  \<open>Get\<close> then returns the mapping built so far together with the error.
\<close>

fun Bbolt_Get_loop ::
  "(string \<Rightarrow> 'm \<Rightarrow> string + 'm) \<Rightarrow> (string \<times> string) list \<Rightarrow> 'm \<Rightarrow>
   (string \<rightharpoonup> 'm) \<Rightarrow> (string \<rightharpoonup> 'm) \<times> error option" where
  "Bbolt_Get_loop unmarshal [] model results = (results, None)"
| "Bbolt_Get_loop unmarshal (kv # rest) model results =
     (case unmarshal (snd kv) model of
        Inl msg \<Rightarrow> (results, Some (JsonError msg))
      | Inr model' \<Rightarrow> Bbolt_Get_loop unmarshal rest model' (results(fst kv \<mapsto> model')))"

definition Bbolt_Get ::
  "(string \<Rightarrow> 'm \<Rightarrow> string + 'm) \<Rightarrow> string \<Rightarrow> 'm \<Rightarrow> bbolt \<Rightarrow>
   ((string \<rightharpoonup> 'm) option \<times> error option) \<times> bbolt" where
  "Bbolt_Get unmarshal bucket model db =
     (case Bbolt_checkBucket bucket db of
        (Some err, db') \<Rightarrow> ((None, Some err), db')
      | (None, db') \<Rightarrow>
          (case tx_Bucket bucket db' of
             None \<Rightarrow> ((None, Some NilDereference), db')
           | Some b \<Rightarrow>
               (case Bbolt_Get_loop unmarshal b model Map.empty of
                  (results, err) \<Rightarrow> ((Some results, err), db'))))"

definition Bbolt_Read ::
  "(string \<Rightarrow> 'm \<Rightarrow> string + 'm) \<Rightarrow> string \<Rightarrow> string \<Rightarrow> 'm \<Rightarrow> bbolt \<Rightarrow> (error + 'm) \<times> bbolt" where
  "Bbolt_Read unmarshal bucket key model db =
     (case Bbolt_view bucket key db of
        (Inl err, db') \<Rightarrow> (Inl err, db')
      | (Inr data, db') \<Rightarrow>
          (case unmarshal data model of
             Inl msg \<Rightarrow> (Inl (JsonError msg), db')
           | Inr model' \<Rightarrow> (Inr model', db')))"

definition Bbolt_Update ::
  "('v \<Rightarrow> string + string) \<Rightarrow> string \<Rightarrow> string \<Rightarrow> 'v \<Rightarrow> bbolt \<Rightarrow> error option \<times> bbolt" where
  "Bbolt_Update marshal bucket key model db =
     (case Bbolt_view bucket key db of
        (Inl err, db') \<Rightarrow> (Some err, db')
      | (Inr _, db') \<Rightarrow> Bbolt_write marshal bucket key model db')"

subsection \<open>What a store holds\<close>

text \<open>
  The bytes stored for \<open>(bucket, key)\<close>, if any: on LevelDB under the physical key
  \<open>bucket+"_"+key\<close>, on bbolt under \<open>key\<close> in the bucket named \<open>bucket\<close>.
\<close>

definition Level_record :: "leveldb \<Rightarrow> string \<Rightarrow> string \<Rightarrow> string option" where
  "Level_record db bucket key = map_of db (bucket @ ''_'' @ key)"

definition Bbolt_record :: "bbolt \<Rightarrow> string \<Rightarrow> string \<Rightarrow> string option" where
  "Bbolt_record db bucket key =
     (case map_of db bucket of None \<Rightarrow> None | Some b \<Rightarrow> map_of b key)"

definition Bbolt_bucket_bytes :: "bbolt \<Rightarrow> string \<Rightarrow> nat" where
  \<comment> \<open>the bytes of the bucket named \<open>bucket\<close>, 0 when there is none\<close>
  "Bbolt_bucket_bytes db bucket =
     (case map_of db bucket of None \<Rightarrow> 0 | Some b \<Rightarrow> bucket_bytes b)"

subsection \<open>A sample codec\<close>

text \<open>
  The worked instances below run the adapters with this codec in place of
  \<open>encoding/json\<close>: values are strings, written between quotes; a value that contains
  a quote cannot be encoded, and bytes that are not a quoted string cannot be decoded.
\<close>

definition sample_marshal :: "string \<Rightarrow> string + string" where
  "sample_marshal v =
     (if CHR 0x22 \<in> set v then Inl ''unsupported value''
      else Inr ([CHR 0x22] @ v @ [CHR 0x22]))"

definition sample_unmarshal :: "string \<Rightarrow> string \<Rightarrow> string + string" where
  "sample_unmarshal data model =
     (if 2 \<le> length data \<and> hd data = CHR 0x22 \<and> last data = CHR 0x22
      then Inr (butlast (tl data))
      else Inl ''invalid character'')"

section \<open>Facts about tables, loops and helpers\<close>

lemma map_of_kv_put: "map_of (kv_put k v xs) = (map_of xs)(k \<mapsto> v)"
  by (induction xs) (auto simp: fun_eq_iff)

lemma map_of_kv_delete: "map_of (kv_delete k xs) = (map_of xs)(k := None)"
  unfolding kv_delete_def by (induction xs) (auto simp: fun_eq_iff)

lemma set_fst_kv_put: "fst ` set (kv_put k v xs) = insert k (fst ` set xs)"
proof -
  have "fst ` set (kv_put k v xs) = dom (map_of (kv_put k v xs))"
    by (simp add: dom_map_of_conv_image_fst)
  also have "\<dots> = insert k (dom (map_of xs))"
    by (simp add: map_of_kv_put)
  finally show ?thesis
    by (simp add: dom_map_of_conv_image_fst)
qed

lemma kv_inv_Nil: "kv_inv []"
  by (simp add: kv_inv_def)

lemma kv_inv_put: "kv_inv xs \<Longrightarrow> kv_inv (kv_put k v xs)"
  unfolding kv_inv_def
proof (induction xs)
  case Nil
  then show ?case by simp
next
  case (Cons x xs)
  obtain k' v' where x: "x = (k', v')" by (cases x)
  from Cons.prems have tl: "sorted_wrt (<) (map fst xs)"
    and hd: "\<forall>y \<in> fst ` set xs. k' < y" by (auto simp: x)
  show ?case
  proof (cases "k < k'")
    case True
    with Cons.prems hd show ?thesis by (auto simp: x)
  next
    case False
    show ?thesis
    proof (cases "k = k'")
      case True
      with Cons.prems show ?thesis by (simp add: x)
    next
      case ne: False
      with False have "k' < k" by simp
      with hd have "\<forall>y \<in> fst ` set (kv_put k v xs). k' < y"
        by (simp add: set_fst_kv_put)
      with Cons.IH [OF tl] False ne show ?thesis by (simp add: x)
    qed
  qed
qed

lemma kv_inv_delete: "kv_inv xs \<Longrightarrow> kv_inv (kv_delete k xs)"
  unfolding kv_inv_def kv_delete_def
  by (induction xs) auto

lemma kv_inv_distinct: "kv_inv xs \<Longrightarrow> distinct (map fst xs)"
  by (simp add: kv_inv_def strict_sorted_iff)

lemma sum_case_map_sum:
  "(case x of Inl msg \<Rightarrow> Inl (JsonError msg) | Inr m' \<Rightarrow> Inr m') = map_sum JsonError id x"
  by (cases x) simp_all

lemma bbolt_inv_bucket:
  "bbolt_inv db \<Longrightarrow> map_of db bucket = Some b \<Longrightarrow> bucket \<noteq> [] \<and> kv_inv b"
proof -
  assume inv: "bbolt_inv db" and m: "map_of db bucket = Some b"
  from m have "(bucket, b) \<in> set db" by (rule map_of_SomeD)
  with inv show ?thesis
    unfolding bbolt_inv_def list_all_iff by fastforce
qed

lemma checkBucket_existing:
  "bucket \<noteq> [] \<Longrightarrow> map_of db bucket = Some b \<Longrightarrow> Bbolt_checkBucket bucket db = (None, db)"
  by (simp add: Bbolt_checkBucket_def tx_CreateBucketIfNotExists_def)

lemma checkBucket_new:
  "bucket \<noteq> [] \<Longrightarrow> map_of db bucket = None \<Longrightarrow>
   Bbolt_checkBucket bucket db = (None, kv_put bucket [] db)"
  by (simp add: Bbolt_checkBucket_def tx_CreateBucketIfNotExists_def)

lemma checkBucket_empty_name:
  "Bbolt_checkBucket [] db = (Some ErrBucketNameRequired, db)"
  by (simp add: Bbolt_checkBucket_def tx_CreateBucketIfNotExists_def)

lemma view_existing:
  "bucket \<noteq> [] \<Longrightarrow> map_of db bucket = Some b \<Longrightarrow>
   Bbolt_view bucket key db =
     (case map_of b key of None \<Rightarrow> Inl KeyDoesNotExist | Some d \<Rightarrow> Inr d, db)"
  by (simp add: Bbolt_view_def checkBucket_existing tx_Bucket_def bucket_Get_def
      split: option.split)

lemma view_new:
  "bucket \<noteq> [] \<Longrightarrow> map_of db bucket = None \<Longrightarrow>
   Bbolt_view bucket key db = (Inl KeyDoesNotExist, kv_put bucket [] db)"
  by (simp add: Bbolt_view_def checkBucket_new tx_Bucket_def bucket_Get_def map_of_kv_put)

lemma write_existing:
  "bucket \<noteq> [] \<Longrightarrow> map_of db bucket = Some b \<Longrightarrow> marshal model = Inr data \<Longrightarrow>
   key \<noteq> [] \<Longrightarrow> length key \<le> MaxKeySize \<Longrightarrow> length data \<le> MaxValueSize \<Longrightarrow>
   length key + length data \<le> maxAllocSize \<Longrightarrow>
   Bbolt_write marshal bucket key model db = (None, kv_put bucket (kv_put key data b) db)"
  by (simp add: Bbolt_write_def checkBucket_existing tx_Bucket_def bucket_Put_def)


lemma view_record:
  "bucket \<noteq> [] \<Longrightarrow>
   fst (Bbolt_view bucket key db) =
     (case Bbolt_record db bucket key of None \<Rightarrow> Inl KeyDoesNotExist | Some d \<Rightarrow> Inr d)"
  by (cases "map_of db bucket") (simp_all add: view_new view_existing Bbolt_record_def)

lemma view_state:
  "bucket \<noteq> [] \<Longrightarrow>
   snd (Bbolt_view bucket key db) =
     (case map_of db bucket of None \<Rightarrow> kv_put bucket [] db | Some b \<Rightarrow> db)"
  by (cases "map_of db bucket") (simp_all add: view_new view_existing)


lemma no_record_no_prefix:
  assumes "\<forall>key. Level_record db bucket key = None"
  shows "ldb_NewIterator (bucket @ ''_'') db = []"
proof -
  have "\<not> prefix (bucket @ ''_'') (fst kv)" if kv: "kv \<in> set db" for kv
  proof
    assume "prefix (bucket @ ''_'') (fst kv)"
    then obtain key where k: "fst kv = (bucket @ ''_'') @ key"
      by (auto simp: prefix_def)
    from kv have "fst kv \<in> dom (map_of db)"
      by (simp add: dom_map_of_conv_image_fst)
    with k assms show False
      by (auto simp: Level_record_def)
  qed
  then show ?thesis
    by (simp add: ldb_NewIterator_def filter_empty_conv)
qed

lemma Level_Count_loop_length: "Level_Count_loop iter counter = counter + length iter"
  by (induction iter arbitrary: counter) simp_all

lemma Level_Get_loop_dom:
  "Level_Get_loop unmarshal bucket iter model results = Inr res \<Longrightarrow>
   dom res = dom results \<union> (\<lambda>kv. TrimPrefix (fst kv) (bucket @ ''_'')) ` set iter"
proof (induction iter arbitrary: model results)
  case Nil
  then show ?case by simp
next
  case (Cons kv iter)
  from Cons.prems obtain model' where
    u: "unmarshal (snd kv) model = Inr model'" and
    r: "Level_Get_loop unmarshal bucket iter model'
          (results(TrimPrefix (fst kv) (bucket @ ''_'') \<mapsto> model')) = Inr res"
    by (auto simp: Let_def split: sum.splits)
  from Cons.IH [OF r] show ?case by auto
qed

lemma Bbolt_Get_loop_dom:
  "Bbolt_Get_loop unmarshal b model results = (res, None) \<Longrightarrow>
   dom res = dom results \<union> fst ` set b"
proof (induction b arbitrary: model results)
  case Nil
  then show ?case by simp
next
  case (Cons kv rest)
  from Cons.prems obtain model' where
    u: "unmarshal (snd kv) model = Inr model'" and
    r: "Bbolt_Get_loop unmarshal rest model' (results(fst kv \<mapsto> model')) = (res, None)"
    by (auto split: sum.splits)
  from Cons.IH [OF r] show ?case by auto
qed

lemma TrimPrefix_prefixed: "prefix p k \<Longrightarrow> p @ TrimPrefix k p = k"
  by (auto simp: TrimPrefix_def prefix_def)

lemma TrimPrefix_inj:
  "prefix p k \<Longrightarrow> prefix p k' \<Longrightarrow> TrimPrefix k p = TrimPrefix k' p \<Longrightarrow> k = k'"
  by (metis TrimPrefix_prefixed)

lemma iterator_distinct: "kv_inv db \<Longrightarrow> distinct (map fst (ldb_NewIterator p db))"
  unfolding ldb_NewIterator_def
  by (simp add: kv_inv_distinct distinct_map_filter)

lemma iterator_prefixed: "kv \<in> set (ldb_NewIterator p db) \<Longrightarrow> prefix p (fst kv)"
  by (simp add: ldb_NewIterator_def)

lemma card_trimmed_keys:
  assumes "kv_inv db"
  shows "card ((\<lambda>kv. TrimPrefix (fst kv) p) ` set (ldb_NewIterator p db))
    = length (ldb_NewIterator p db)"
proof -
  let ?it = "ldb_NewIterator p db"
  have inj: "inj_on (\<lambda>k. TrimPrefix k p) (set (map fst ?it))"
    by (rule inj_onI) (auto dest!: iterator_prefixed intro: TrimPrefix_inj)
  have "(\<lambda>kv. TrimPrefix (fst kv) p) ` set ?it = (\<lambda>k. TrimPrefix k p) ` set (map fst ?it)"
    by (simp add: image_image)
  then have "card ((\<lambda>kv. TrimPrefix (fst kv) p) ` set ?it) = card (set (map fst ?it))"
    using inj by (simp add: card_image)
  also have "\<dots> = length (map fst ?it)"
    using iterator_distinct [OF assms] by (rule distinct_card)
  finally show ?thesis by simp
qed

lemma Level_Drop_loop_map_of:
  "map_of (Level_Drop_loop iter db) k = (if k \<in> fst ` set iter then None else map_of db k)"
  by (induction iter arbitrary: db) (auto simp: ldb_Delete_def map_of_kv_delete)

lemma Level_Drop_prefixed:
  assumes "prefix (bucket @ ''_'') k"
  shows "map_of (snd (Level_Drop bucket db)) k = None"
proof (cases "map_of db k")
  case None
  then show ?thesis
    by (simp add: Level_Drop_def Level_Drop_loop_map_of)
next
  case (Some d)
  then have "(k, d) \<in> set db" by (rule map_of_SomeD)
  with assms have "(k, d) \<in> set (ldb_NewIterator (bucket @ ''_'') db)"
    by (simp add: ldb_NewIterator_def)
  then have "k \<in> fst ` set (ldb_NewIterator (bucket @ ''_'') db)"
    by force
  then show ?thesis
    by (simp add: Level_Drop_def Level_Drop_loop_map_of)
qed

lemma filter_split_length:
  "(\<And>x. Q x \<Longrightarrow> P x) \<Longrightarrow>
   length (filter P xs) = length (filter Q xs) + length (filter (\<lambda>x. P x \<and> \<not> Q x) xs)"
  by (induction xs) auto

lemma Level_Get_loop_keeps:
  "Level_Get_loop unmarshal bucket iter model results = Inr res \<Longrightarrow>
   key \<notin> (\<lambda>kv. TrimPrefix (fst kv) (bucket @ ''_'')) ` set iter \<Longrightarrow>
   res key = results key"
proof (induction iter arbitrary: model results)
  case Nil
  then show ?case by simp
next
  case (Cons kv iter)
  from Cons.prems(1) obtain model' where
    r: "Level_Get_loop unmarshal bucket iter model'
          (results(TrimPrefix (fst kv) (bucket @ ''_'') \<mapsto> model')) = Inr res"
    by (auto simp: Let_def split: sum.splits)
  from Cons.IH [OF r] Cons.prems(2) show ?case by auto
qed

lemma Level_Get_loop_value:
  "Level_Get_loop unmarshal bucket iter model results = Inr res \<Longrightarrow>
   distinct (map fst iter) \<Longrightarrow> \<forall>kv \<in> set iter. prefix (bucket @ ''_'') (fst kv) \<Longrightarrow>
   (k, d) \<in> set iter \<Longrightarrow>
   \<exists>m0 m'. unmarshal d m0 = Inr m' \<and> res (TrimPrefix k (bucket @ ''_'')) = Some m'"
proof (induction iter arbitrary: model results)
  case Nil
  then show ?case by simp
next
  case (Cons kv iter)
  let ?p = "bucket @ ''_''"
  from Cons.prems(1) obtain model' where
    u: "unmarshal (snd kv) model = Inr model'" and
    r: "Level_Get_loop unmarshal bucket iter model'
          (results(TrimPrefix (fst kv) ?p \<mapsto> model')) = Inr res"
    by (auto simp: Let_def split: sum.splits)
  show ?case
  proof (cases "kv = (k, d)")
    case True
    have "TrimPrefix k ?p \<notin> (\<lambda>kv. TrimPrefix (fst kv) ?p) ` set iter"
    proof
      assume "TrimPrefix k ?p \<in> (\<lambda>kv. TrimPrefix (fst kv) ?p) ` set iter"
      then obtain kv' where kv': "kv' \<in> set iter" "TrimPrefix k ?p = TrimPrefix (fst kv') ?p"
        by auto
      with Cons.prems(3) True have "k = fst kv'"
        by (auto intro: TrimPrefix_inj)
      with kv' Cons.prems(2) True show False by auto
    qed
    from Level_Get_loop_keeps [OF r this] True u show ?thesis by auto
  next
    case False
    with Cons.prems have "(k, d) \<in> set iter" "distinct (map fst iter)"
      "\<forall>kv \<in> set iter. prefix ?p (fst kv)" by auto
    with Cons.IH [OF r] show ?thesis by blast
  qed
qed

lemma set_kv_put: "set (kv_put k v xs) \<subseteq> insert (k, v) (set xs)"
  by (induction xs) (auto split: if_splits)

lemma bbolt_inv_Nil: "bbolt_inv []"
  by (simp add: bbolt_inv_def kv_inv_Nil)

lemma bbolt_inv_put:
  assumes "bbolt_inv db" and "name \<noteq> []" and "kv_inv b"
  shows "bbolt_inv (kv_put name b db)"
proof -
  from assms(1) have "kv_inv (kv_put name b db)"
    by (simp add: bbolt_inv_def kv_inv_put)
  moreover have "fst nb \<noteq> [] \<and> kv_inv (snd nb)" if "nb \<in> set (kv_put name b db)" for nb
  proof -
    from that set_kv_put [of name b db] have "nb = (name, b) \<or> nb \<in> set db" by auto
    with assms show ?thesis
      by (auto simp: bbolt_inv_def list_all_iff)
  qed
  ultimately show ?thesis
    by (simp add: bbolt_inv_def list_all_iff)
qed

lemma bbolt_inv_delete: "bbolt_inv db \<Longrightarrow> bbolt_inv (kv_delete name db)"
proof -
  assume inv: "bbolt_inv db"
  then have "kv_inv (kv_delete name db)"
    by (simp add: bbolt_inv_def kv_inv_delete)
  moreover from inv have "list_all (\<lambda>nb. fst nb \<noteq> [] \<and> kv_inv (snd nb)) (kv_delete name db)"
    by (auto simp: bbolt_inv_def list_all_iff kv_delete_def)
  ultimately show ?thesis
    by (simp add: bbolt_inv_def)
qed

lemma Level_Drop_loop_inv: "kv_inv db \<Longrightarrow> kv_inv (Level_Drop_loop iter db)"
  by (induction iter arbitrary: db) (simp_all add: ldb_Delete_def kv_inv_delete)

lemma Level_inv_preserved:
  assumes "kv_inv db"
  shows "kv_inv (snd (Level_Create marshal bucket key model db))"
    and "kv_inv (snd (Level_Update marshal bucket key model db))"
    and "kv_inv (snd (Level_Delete bucket key db))"
    and "kv_inv (snd (Level_Drop bucket db))"
  using assms
  by (auto simp: Level_Create_def Level_Update_def Level_Delete_def Level_Drop_def
      ldb_Put_def ldb_Delete_def kv_inv_put kv_inv_delete Level_Drop_loop_inv
      split: sum.splits)

lemma checkBucket_inv: "bbolt_inv db \<Longrightarrow> bbolt_inv (snd (Bbolt_checkBucket bucket db))"
  by (auto simp: Bbolt_checkBucket_def tx_CreateBucketIfNotExists_def bbolt_inv_put kv_inv_Nil
      split: option.splits)

lemma view_inv: "bbolt_inv db \<Longrightarrow> bbolt_inv (snd (Bbolt_view bucket key db))"
  using checkBucket_inv [of db bucket]
  by (auto simp: Bbolt_view_def split: prod.splits option.splits)

lemma write_inv:
  assumes "bbolt_inv db"
  shows "bbolt_inv (snd (Bbolt_write marshal bucket key model db))"
proof (cases "marshal model")
  case (Inl msg)
  with assms show ?thesis by (simp add: Bbolt_write_def)
next
  case (Inr data)
  obtain e db' where cb: "Bbolt_checkBucket bucket db = (e, db')"
    by (cases "Bbolt_checkBucket bucket db")
  with checkBucket_inv [OF assms, of bucket] have inv': "bbolt_inv db'" by simp
  show ?thesis
  proof (cases e)
    case (Some err)
    with Inr cb inv' show ?thesis by (simp add: Bbolt_write_def)
  next
    case None
    show ?thesis
    proof (cases "map_of db' bucket")
      case nb: None
      with Inr cb None inv' show ?thesis by (simp add: Bbolt_write_def tx_Bucket_def)
    next
      case (Some b)
      with inv' have "bucket \<noteq> []" "kv_inv b"
        using bbolt_inv_bucket by blast+
      with Inr cb None Some inv' show ?thesis
        by (auto simp: Bbolt_write_def tx_Bucket_def bucket_Put_def bbolt_inv_put kv_inv_put)
    qed
  qed
qed

lemma Bbolt_inv_preserved:
  assumes "bbolt_inv db"
  shows "bbolt_inv (snd (Bbolt_Create marshal bucket key model db))"
    and "bbolt_inv (snd (Bbolt_Update marshal bucket key model db))"
    and "bbolt_inv (snd (Bbolt_Delete bucket key db))"
    and "bbolt_inv (snd (Bbolt_Drop bucket db))"
    and "bbolt_inv (snd (Bbolt_Read unmarshal bucket key out db))"
    and "bbolt_inv (snd (Bbolt_Count bucket db))"
    and "bbolt_inv (snd (Bbolt_Get unmarshal bucket out db))"
proof -
  obtain r db' where v: "Bbolt_view bucket key db = (r, db')"
    by (cases "Bbolt_view bucket key db")
  with view_inv [OF assms, of bucket key] have inv': "bbolt_inv db'" by simp
  from v inv' show "bbolt_inv (snd (Bbolt_Create marshal bucket key model db))"
    by (cases r) (simp_all add: Bbolt_Create_def write_inv)
  from v inv' show "bbolt_inv (snd (Bbolt_Update marshal bucket key model db))"
    by (cases r) (simp_all add: Bbolt_Update_def write_inv)
  from v inv' show "bbolt_inv (snd (Bbolt_Read unmarshal bucket key out db))"
    by (cases r) (simp_all add: Bbolt_Read_def split: sum.splits)
  show "bbolt_inv (snd (Bbolt_Delete bucket key db))"
  proof (cases "map_of db' bucket")
    case None
    with v inv' show ?thesis
      by (cases r) (simp_all add: Bbolt_Delete_def tx_Bucket_def)
  next
    case (Some b)
    with inv' have "bucket \<noteq> []" "kv_inv b"
      using bbolt_inv_bucket by blast+
    with v inv' Some show ?thesis
      by (cases r)
         (simp_all add: Bbolt_Delete_def tx_Bucket_def bucket_Delete_def bbolt_inv_put
           kv_inv_delete)
  qed
  from assms show "bbolt_inv (snd (Bbolt_Drop bucket db))"
    by (auto simp: Bbolt_Drop_def tx_DeleteBucket_def bbolt_inv_delete split: option.splits)
  from checkBucket_inv [OF assms, of bucket]
  show "bbolt_inv (snd (Bbolt_Count bucket db))"
    and "bbolt_inv (snd (Bbolt_Get unmarshal bucket out db))"
    by (auto simp: Bbolt_Count_def Bbolt_Get_def split: prod.splits option.splits)
qed

lemma checkBucket_then_Bucket:
  "Bbolt_checkBucket bucket db = (None, db') \<Longrightarrow> tx_Bucket bucket db' \<noteq> None"
  by (auto simp: Bbolt_checkBucket_def tx_CreateBucketIfNotExists_def tx_Bucket_def
      map_of_kv_put split: if_splits option.splits)

lemma no_NilDereference:
  "fst (Bbolt_view bucket key db) \<noteq> Inl NilDereference"
  "snd (fst (Bbolt_Count bucket db)) \<noteq> Some NilDereference"
  "snd (fst (Bbolt_Get unmarshal bucket out db)) \<noteq> Some NilDereference"
proof -
  obtain e db' where cb: "Bbolt_checkBucket bucket db = (e, db')"
    by (cases "Bbolt_checkBucket bucket db")
  have e: "e \<noteq> Some NilDereference"
    using cb by (auto simp: Bbolt_checkBucket_def tx_CreateBucketIfNotExists_def
        split: if_splits option.splits)
  have b: "tx_Bucket bucket db' \<noteq> None" if "e = None"
    using cb that checkBucket_then_Bucket [of bucket db db'] by simp
  show "fst (Bbolt_view bucket key db) \<noteq> Inl NilDereference"
    using cb e b by (cases e) (auto simp: Bbolt_view_def split: option.splits)
  show "snd (fst (Bbolt_Count bucket db)) \<noteq> Some NilDereference"
    using cb e b by (cases e) (auto simp: Bbolt_Count_def split: option.splits)
  have "Bbolt_Get_loop unmarshal b m r \<noteq> (res, Some NilDereference)" for b m r res
    by (induction b arbitrary: m r) (auto split: sum.splits)
  then show "snd (fst (Bbolt_Get unmarshal bucket out db)) \<noteq> Some NilDereference"
    using cb e b by (cases e) (auto simp: Bbolt_Get_def split: option.splits prod.splits)
qed

lemma empty_bucket_name_refused:
  "Bbolt_Read unmarshal [] key out db = (Inl ErrBucketNameRequired, db)"
  "Bbolt_Delete [] key db = (Some ErrBucketNameRequired, db)"
  "Bbolt_Count [] db = ((0, Some ErrBucketNameRequired), db)"
  "Bbolt_Get unmarshal [] out db = ((None, Some ErrBucketNameRequired), db)"
  by (simp_all add: Bbolt_Read_def Bbolt_Delete_def Bbolt_Count_def Bbolt_Get_def
      Bbolt_view_def checkBucket_empty_name)

section \<open>The claims\<close>

text \<open>
  C1. Read for every bucket, key and serializable value, the claim fails where
  \<open>(bucket, key)\<close> already holds a record (\<open>Create\<close> is refused and \<open>Read\<close> yields
  the old value) and, on bbolt, where the engine refuses the key or the record for its
  size. What holds: let the pair hold no record, let \<open>marshal\<close> encode the value as
  \<open>data\<close> and let \<open>v'\<close> be the decoding of \<open>data\<close> into the caller's variable, the
  value after the round trip. Then \<open>Create\<close> succeeds and the following \<open>Read\<close>
  succeeds and yields \<open>v'\<close>. On bbolt the bucket name and the key are not empty, the
  key has at most \<open>MaxKeySize\<close> bytes, and the bucket with the new record has at most
  \<open>maxAllocSize\<close> bytes.
\<close>

theorem create_then_read:
  "(Level_record ldb bucket key = None \<and> marshal v = Inr data \<and> unmarshal data out = Inr v' \<longrightarrow>
      fst (Level_Create marshal bucket key v ldb) = None \<and>
      Level_Read unmarshal bucket key out (snd (Level_Create marshal bucket key v ldb)) = Inr v') \<and>
   (Bbolt_record bdb bucket key = None \<and> marshal v = Inr data \<and> unmarshal data out = Inr v' \<and>
    bucket \<noteq> [] \<and> key \<noteq> [] \<and> length key \<le> MaxKeySize \<and>
    Bbolt_bucket_bytes bdb bucket + (leafPageElementSize + length key + length data)
      \<le> maxAllocSize \<longrightarrow>
      fst (Bbolt_Create marshal bucket key v bdb) = None \<and>
      fst (Bbolt_Read unmarshal bucket key out (snd (Bbolt_Create marshal bucket key v bdb)))
        = Inr v')"
proof (intro conjI impI)
  assume a: "Level_record ldb bucket key = None \<and> marshal v = Inr data \<and>
    unmarshal data out = Inr v'"
  then have c: "Level_Create marshal bucket key v ldb
      = (None, ldb_Put (bucket @ ''_'' @ key) data ldb)"
    by (simp add: Level_record_def Level_Create_def ldb_Get_def)
  then show "fst (Level_Create marshal bucket key v ldb) = None" by simp
  from a show "Level_Read unmarshal bucket key out (snd (Level_Create marshal bucket key v ldb))
      = Inr v'"
    by (simp add: c Level_Read_def ldb_Get_def ldb_Put_def map_of_kv_put)
next
  assume a: "Bbolt_record bdb bucket key = None \<and> marshal v = Inr data \<and>
    unmarshal data out = Inr v' \<and> bucket \<noteq> [] \<and> key \<noteq> [] \<and> length key \<le> MaxKeySize \<and>
    Bbolt_bucket_bytes bdb bucket + (leafPageElementSize + length key + length data)
      \<le> maxAllocSize"
  then have fits: "length key + length data \<le> maxAllocSize" "length data \<le> MaxValueSize"
    by (simp_all add: leafPageElementSize_def maxAllocSize_def MaxValueSize_def)
  define db1 where "db1 = snd (Bbolt_view bucket key bdb)"
  obtain b where b: "map_of db1 bucket = Some b"
    using a unfolding db1_def
    by (cases "map_of bdb bucket") (auto simp: view_state map_of_kv_put)
  from a have v: "Bbolt_view bucket key bdb = (Inl KeyDoesNotExist, db1)"
    unfolding db1_def using view_record [of bucket key bdb]
    by (cases "Bbolt_view bucket key bdb") simp
  with a b fits have c: "Bbolt_Create marshal bucket key v bdb
      = (None, kv_put bucket (kv_put key data b) db1)"
    by (simp add: Bbolt_Create_def write_existing)
  then show "fst (Bbolt_Create marshal bucket key v bdb) = None" by simp
  have "map_of (kv_put bucket (kv_put key data b) db1) bucket = Some (kv_put key data b)"
    by (simp add: map_of_kv_put)
  with a have "Bbolt_view bucket key (kv_put bucket (kv_put key data b) db1)
      = (Inr data, kv_put bucket (kv_put key data b) db1)"
    by (simp add: view_existing map_of_kv_put)
  with a show "fst (Bbolt_Read unmarshal bucket key out
      (snd (Bbolt_Create marshal bucket key v bdb))) = Inr v'"
    by (simp add: c Bbolt_Read_def)
qed

theorem create_then_read_witness:
  "Level_record [] ''users'' ''u1'' = None \<and> sample_marshal ''Ann'' = Inr ''\"Ann\"'' \<and>
   sample_unmarshal ''\"Ann\"'' [] = Inr ''Ann'' \<and>
   Level_Create sample_marshal ''users'' ''u1'' ''Ann'' [] = (None, [(''users_u1'', ''\"Ann\"'')]) \<and>
   Level_Read sample_unmarshal ''users'' ''u1'' [] [(''users_u1'', ''\"Ann\"'')] = Inr ''Ann'' \<and>
   Bbolt_record [(''users'', [(''u0'', ''\"Eve\"'')])] ''users'' ''u1'' = None \<and>
   Bbolt_bucket_bytes [(''users'', [(''u0'', ''\"Eve\"'')])] ''users'' = 23 \<and>
   Bbolt_Create sample_marshal ''users'' ''u1'' ''Ann'' [(''users'', [(''u0'', ''\"Eve\"'')])]
     = (None, [(''users'', [(''u0'', ''\"Eve\"''), (''u1'', ''\"Ann\"'')])]) \<and>
   fst (Bbolt_Read sample_unmarshal ''users'' ''u1'' []
          [(''users'', [(''u0'', ''\"Eve\"''), (''u1'', ''\"Ann\"'')])])
     = Inr ''Ann''"
proof -
  let ?B = "[(''users'', [(''u0'', ''\"Eve\"'')])]"
  have l: "Level_Create sample_marshal ''users'' ''u1'' ''Ann'' []
      = (None, [(''users_u1'', ''\"Ann\"'')])"
    by (simp add: Level_Create_def ldb_Get_def ldb_Put_def sample_marshal_def)
  have b: "Bbolt_Create sample_marshal ''users'' ''u1'' ''Ann'' ?B
      = (None, [(''users'', [(''u0'', ''\"Eve\"''), (''u1'', ''\"Ann\"'')])])"
    by (simp add: Bbolt_Create_def Bbolt_view_def Bbolt_checkBucket_def
        tx_CreateBucketIfNotExists_def tx_Bucket_def bucket_Get_def Bbolt_write_def
        bucket_Put_def MaxKeySize_def MaxValueSize_def maxAllocSize_def sample_marshal_def)
  have n: "Bbolt_bucket_bytes ?B ''users'' = 23"
    by (simp add: Bbolt_bucket_bytes_def bucket_bytes_def leafPageElementSize_def)
  show ?thesis
    using create_then_read [of "[]" "''users''" "''u1''" sample_marshal "''Ann''" "''\"Ann\"''"
        sample_unmarshal "[]" "''Ann''" ?B]
    by (simp add: l b n Level_record_def Bbolt_record_def sample_marshal_def
        sample_unmarshal_def MaxKeySize_def maxAllocSize_def leafPageElementSize_def)
qed

theorem create_then_read_counterexample:
  "sample_marshal ''Bob'' = Inr ''\"Bob\"'' \<and>
   sample_unmarshal ''\"Bob\"'' [] = Inr ''Bob'' \<and>
   Level_Create sample_marshal ''users'' ''u1'' ''Bob'' [(''users_u1'', ''\"Ann\"'')]
     = (Some KeyAlreadyExists, [(''users_u1'', ''\"Ann\"'')]) \<and>
   Level_Read sample_unmarshal ''users'' ''u1'' [] [(''users_u1'', ''\"Ann\"'')] = Inr ''Ann'' \<and>
   Bbolt_Create sample_marshal ''users'' ''u1'' ''Bob'' [(''users'', [(''u1'', ''\"Ann\"'')])]
     = (Some KeyAlreadyExists, [(''users'', [(''u1'', ''\"Ann\"'')])]) \<and>
   fst (Bbolt_Read sample_unmarshal ''users'' ''u1'' [] [(''users'', [(''u1'', ''\"Ann\"'')])])
     = Inr ''Ann'' \<and>
   Bbolt_record [] ''users'' (replicate 32769 (CHR ''k'')) = None \<and>
   Bbolt_Create sample_marshal ''users'' (replicate 32769 (CHR ''k'')) ''Bob'' []
     = (Some ErrKeyTooLarge, [(''users'', [])]) \<and>
   length (projr (sample_marshal (replicate 2147483644 (CHR ''v'')))) = MaxValueSize \<and>
   Bbolt_Create sample_marshal ''users'' ''u1'' (replicate 2147483644 (CHR ''v'')) []
     = (Some SliceBoundsPanic, [(''users'', [])])"
proof -
  have occupied:
    "Level_Create sample_marshal ''users'' ''u1'' ''Bob'' [(''users_u1'', ''\"Ann\"'')]
       = (Some KeyAlreadyExists, [(''users_u1'', ''\"Ann\"'')])"
    "Level_Read sample_unmarshal ''users'' ''u1'' [] [(''users_u1'', ''\"Ann\"'')] = Inr ''Ann''"
    "Bbolt_Create sample_marshal ''users'' ''u1'' ''Bob'' [(''users'', [(''u1'', ''\"Ann\"'')])]
       = (Some KeyAlreadyExists, [(''users'', [(''u1'', ''\"Ann\"'')])])"
    "fst (Bbolt_Read sample_unmarshal ''users'' ''u1'' [] [(''users'', [(''u1'', ''\"Ann\"'')])])
       = Inr ''Ann''"
    by (simp_all add: Level_Create_def Level_Read_def ldb_Get_def
        Bbolt_Create_def Bbolt_Read_def Bbolt_view_def Bbolt_checkBucket_def
        tx_CreateBucketIfNotExists_def tx_Bucket_def bucket_Get_def
        sample_marshal_def sample_unmarshal_def)
  have codec: "sample_marshal ''Bob'' = Inr ''\"Bob\"''" "sample_unmarshal ''\"Bob\"'' [] = Inr ''Bob''"
    by (simp_all add: sample_marshal_def sample_unmarshal_def)
  have view_empty: "Bbolt_view ''users'' key [] = (Inl KeyDoesNotExist, [(''users'', [])])" for key
    by (simp add: Bbolt_view_def Bbolt_checkBucket_def tx_CreateBucketIfNotExists_def
        tx_Bucket_def bucket_Get_def)
  have cb: "Bbolt_checkBucket ''users'' [(''users'', [])] = (None, [(''users'', [])])"
    by (simp add: Bbolt_checkBucket_def tx_CreateBucketIfNotExists_def)
  have big_key: "Bbolt_Create sample_marshal ''users'' (replicate 32769 (CHR ''k'')) ''Bob'' []
      = (Some ErrKeyTooLarge, [(''users'', [])])"
    by (simp add: Bbolt_Create_def view_empty Bbolt_write_def cb tx_Bucket_def bucket_Put_def
        MaxKeySize_def sample_marshal_def)
  have enc: "sample_marshal (replicate 2147483644 (CHR ''v''))
      = Inr ([CHR 0x22] @ replicate 2147483644 (CHR ''v'') @ [CHR 0x22])"
    by (simp add: sample_marshal_def)
  have big_value: "Bbolt_Create sample_marshal ''users'' ''u1'' (replicate 2147483644 (CHR ''v'')) []
      = (Some SliceBoundsPanic, [(''users'', [])])"
    by (simp add: Bbolt_Create_def view_empty Bbolt_write_def enc cb tx_Bucket_def bucket_Put_def
        MaxKeySize_def MaxValueSize_def maxAllocSize_def)
  have len: "length (projr (sample_marshal (replicate 2147483644 (CHR ''v'')))) = MaxValueSize"
    by (simp add: enc MaxValueSize_def)
  have rec: "Bbolt_record [] ''users'' (replicate 32769 (CHR ''k'')) = None"
    by (simp add: Bbolt_record_def)
  from occupied codec big_key big_value len rec show ?thesis by blast
qed





text \<open>
  C4. In every store state, whenever \<open>Get\<close> returns a mapping and no error,
  \<open>Count\<close> of the same bucket returns the number of keys of that mapping and no
  error, on both adapters; this covers the empty and the populated bucket. A store
  state is a table with unique keys (\<open>kv_inv\<close>, \<open>bbolt_inv\<close>): the empty store is
  one, and every operation of the adapters takes one to one (\<open>Level_inv_preserved\<close>,
  \<open>Bbolt_inv_preserved\<close>).
\<close>

theorem count_matches_get:
  "(kv_inv ldb \<and> Level_Get unmarshal bucket out ldb = Inr results \<longrightarrow>
      Level_Count bucket ldb = (card (dom results), None)) \<and>
   (bbolt_inv bdb \<and> fst (Bbolt_Get unmarshal bucket out bdb) = (Some bresults, None) \<longrightarrow>
      fst (Bbolt_Count bucket bdb) = (card (dom bresults), None))"
proof (intro conjI impI)
  assume a: "kv_inv ldb \<and> Level_Get unmarshal bucket out ldb = Inr results"
  then have "dom results
      = (\<lambda>kv. TrimPrefix (fst kv) (bucket @ ''_'')) ` set (ldb_NewIterator (bucket @ ''_'') ldb)"
    using Level_Get_loop_dom [of unmarshal bucket _ out Map.empty results]
    by (simp add: Level_Get_def)
  with a show "Level_Count bucket ldb = (card (dom results), None)"
    by (simp add: Level_Count_def Level_Count_loop_length card_trimmed_keys)
next
  assume a: "bbolt_inv bdb \<and> fst (Bbolt_Get unmarshal bucket out bdb) = (Some bresults, None)"
  obtain e db' where cb: "Bbolt_checkBucket bucket bdb = (e, db')"
    by (cases "Bbolt_checkBucket bucket bdb")
  with a have e: "e = None"
    by (cases e) (auto simp: Bbolt_Get_def)
  with a cb obtain b where b: "tx_Bucket bucket db' = Some b"
    by (cases "tx_Bucket bucket db'") (auto simp: Bbolt_Get_def)
  with a cb e have loop: "Bbolt_Get_loop unmarshal b out Map.empty = (bresults, None)"
    by (auto simp: Bbolt_Get_def split: prod.splits)
  have "kv_inv b"
  proof (cases "map_of bdb bucket")
    case None
    with cb e b show ?thesis
      by (auto simp: Bbolt_checkBucket_def tx_CreateBucketIfNotExists_def tx_Bucket_def
          map_of_kv_put kv_inv_Nil split: if_splits)
  next
    case (Some b0)
    with cb e b a show ?thesis
      using bbolt_inv_bucket [of bdb bucket b0]
      by (auto simp: Bbolt_checkBucket_def tx_CreateBucketIfNotExists_def tx_Bucket_def
          split: if_splits)
  qed
  then have "card (fst ` set b) = length b"
    using distinct_card [of "map fst b"] by (simp add: kv_inv_distinct)
  with Bbolt_Get_loop_dom [OF loop] cb e b
  show "fst (Bbolt_Count bucket bdb) = (card (dom bresults), None)"
    by (simp add: Bbolt_Count_def bucket_KeyN_def)
qed

theorem count_matches_get_witness:
  "kv_inv [(''users_u1'', ''\"Ann\"''), (''users_u2'', ''\"Bob\"'')] \<and>
   Level_Get sample_unmarshal ''users'' [] [(''users_u1'', ''\"Ann\"''), (''users_u2'', ''\"Bob\"'')]
     = Inr [''u1'' \<mapsto> ''Ann'', ''u2'' \<mapsto> ''Bob''] \<and>
   Level_Count ''users'' [(''users_u1'', ''\"Ann\"''), (''users_u2'', ''\"Bob\"'')] = (2, None) \<and>
   Level_Get sample_unmarshal ''logs'' [] [(''users_u1'', ''\"Ann\"''), (''users_u2'', ''\"Bob\"'')]
     = Inr Map.empty \<and>
   Level_Count ''logs'' [(''users_u1'', ''\"Ann\"''), (''users_u2'', ''\"Bob\"'')] = (0, None) \<and>
   bbolt_inv [(''logs'', []), (''users'', [(''u1'', ''\"Ann\"''), (''u2'', ''\"Bob\"'')])] \<and>
   fst (Bbolt_Get sample_unmarshal ''users'' []
          [(''logs'', []), (''users'', [(''u1'', ''\"Ann\"''), (''u2'', ''\"Bob\"'')])])
     = (Some [''u1'' \<mapsto> ''Ann'', ''u2'' \<mapsto> ''Bob''], None) \<and>
   fst (Bbolt_Count ''users''
          [(''logs'', []), (''users'', [(''u1'', ''\"Ann\"''), (''u2'', ''\"Bob\"'')])])
     = (2, None) \<and>
   fst (Bbolt_Get sample_unmarshal ''logs'' []
          [(''logs'', []), (''users'', [(''u1'', ''\"Ann\"''), (''u2'', ''\"Bob\"'')])])
     = (Some Map.empty, None) \<and>
   fst (Bbolt_Count ''logs''
          [(''logs'', []), (''users'', [(''u1'', ''\"Ann\"''), (''u2'', ''\"Bob\"'')])])
     = (0, None)"
proof -
  let ?L = "[(''users_u1'', ''\"Ann\"''), (''users_u2'', ''\"Bob\"'')]"
  let ?B = "[(''logs'', []), (''users'', [(''u1'', ''\"Ann\"''), (''u2'', ''\"Bob\"'')])]"
  have li: "kv_inv ?L" by (simp add: kv_inv_def)
  have bi: "bbolt_inv ?B" by (simp add: bbolt_inv_def kv_inv_def)
  have lu: "Level_Get sample_unmarshal ''users'' [] ?L = Inr [''u1'' \<mapsto> ''Ann'', ''u2'' \<mapsto> ''Bob'']"
    by (simp add: Level_Get_def ldb_NewIterator_def TrimPrefix_def sample_unmarshal_def)
  have ll: "Level_Get sample_unmarshal ''logs'' [] ?L = Inr Map.empty"
    by (simp add: Level_Get_def ldb_NewIterator_def)
  have bu: "fst (Bbolt_Get sample_unmarshal ''users'' [] ?B)
      = (Some [''u1'' \<mapsto> ''Ann'', ''u2'' \<mapsto> ''Bob''], None)"
    by (simp add: Bbolt_Get_def Bbolt_checkBucket_def tx_CreateBucketIfNotExists_def
        tx_Bucket_def sample_unmarshal_def)
  have bl: "fst (Bbolt_Get sample_unmarshal ''logs'' [] ?B) = (Some Map.empty, None)"
    by (simp add: Bbolt_Get_def Bbolt_checkBucket_def tx_CreateBucketIfNotExists_def
        tx_Bucket_def)
  from count_matches_get [of ?L sample_unmarshal "''users''" "[]"
      "[''u1'' \<mapsto> ''Ann'', ''u2'' \<mapsto> ''Bob'']" ?B
      "[''u1'' \<mapsto> ''Ann'', ''u2'' \<mapsto> ''Bob'']"] li bi lu bu
  have users: "Level_Count ''users'' ?L = (2, None) \<and> fst (Bbolt_Count ''users'' ?B) = (2, None)"
    by simp
  from count_matches_get [of ?L sample_unmarshal "''logs''" "[]" Map.empty ?B Map.empty]
    li bi ll bl
  have logs: "Level_Count ''logs'' ?L = (0, None) \<and> fst (Bbolt_Count ''logs'' ?B) = (0, None)"
    by simp
  from li bi lu ll bu bl users logs show ?thesis by blast
qed

text \<open>
  C5. On the LevelDB adapter bucket \<open>a\<close> with key \<open>b_c\<close> and bucket \<open>a_b\<close> with
  key \<open>c\<close> share the physical key \<open>a_b_c\<close>: once \<open>Create("a", "b_c", X)\<close> has
  succeeded, \<open>Create("a_b", "c", Y)\<close> fails with "key already exists", and
  \<open>Read("a_b", "c")\<close> is the decoding of the bytes that encode \<open>X\<close>, the very
  result of \<open>Read("a", "b_c")\<close>.
\<close>

theorem physical_key_collision:
  "''a'' @ ''_'' @ ''b_c'' = ''a_b'' @ ''_'' @ ''c'' \<and>
   (Level_Create marshal ''a'' ''b_c'' X db = (None, db') \<longrightarrow>
      Level_Create marshal ''a_b'' ''c'' Y db' = (Some KeyAlreadyExists, db') \<and>
      (\<exists>data. marshal X = Inr data \<and>
         Level_Read unmarshal ''a_b'' ''c'' out db' = map_sum JsonError id (unmarshal data out)) \<and>
      Level_Read unmarshal ''a_b'' ''c'' out db' = Level_Read unmarshal ''a'' ''b_c'' out db')"
proof (intro conjI impI)
  show "''a'' @ ''_'' @ ''b_c'' = ''a_b'' @ ''_'' @ ''c''" by simp
next
  assume c: "Level_Create marshal ''a'' ''b_c'' X db = (None, db')"
  then obtain data where d: "marshal X = Inr data" and db': "db' = ldb_Put ''a_b_c'' data db"
    by (auto simp: Level_Create_def split: sum.splits)
  have m: "map_of db' ''a_b_c'' = Some data"
    by (simp add: db' ldb_Put_def map_of_kv_put)
  then show "Level_Create marshal ''a_b'' ''c'' Y db' = (Some KeyAlreadyExists, db')"
    by (simp add: Level_Create_def ldb_Get_def)
  from m have "Level_Read unmarshal ''a_b'' ''c'' out db' = map_sum JsonError id (unmarshal data out)"
    by (simp add: Level_Read_def ldb_Get_def sum_case_map_sum)
  with d show "\<exists>data. marshal X = Inr data \<and>
      Level_Read unmarshal ''a_b'' ''c'' out db' = map_sum JsonError id (unmarshal data out)"
    by blast
  show "Level_Read unmarshal ''a_b'' ''c'' out db' = Level_Read unmarshal ''a'' ''b_c'' out db'"
    by (simp add: Level_Read_def)
qed

theorem physical_key_collision_witness:
  "Level_Create sample_marshal ''a'' ''b_c'' ''X'' [] = (None, [(''a_b_c'', ''\"X\"'')]) \<and>
   Level_Create sample_marshal ''a_b'' ''c'' ''Y'' [(''a_b_c'', ''\"X\"'')]
     = (Some KeyAlreadyExists, [(''a_b_c'', ''\"X\"'')]) \<and>
   Level_Read sample_unmarshal ''a_b'' ''c'' [] [(''a_b_c'', ''\"X\"'')] = Inr ''X''"
proof -
  have c: "Level_Create sample_marshal ''a'' ''b_c'' ''X'' [] = (None, [(''a_b_c'', ''\"X\"'')])"
    by (simp add: Level_Create_def ldb_Get_def ldb_Put_def sample_marshal_def)
  from physical_key_collision [of sample_marshal "''X''" "[]" "[(''a_b_c'', ''\"X\"'')]" "''Y''"
      sample_unmarshal "[]"] c
  show ?thesis
    by (simp add: sample_marshal_def sample_unmarshal_def)
qed

text \<open>
  C6. On the bbolt adapter \<open>Read\<close>, \<open>Update\<close>, \<open>Delete\<close> and \<open>Count\<close> on a bucket
  that does not exist (its name not empty) leave the store with that bucket added,
  empty, and every other bucket as it was; the first three fail with "key does not
  exist", \<open>Count\<close> returns 0.
\<close>

theorem missing_bucket_is_created:
  "bucket \<noteq> [] \<and> map_of db bucket = None \<longrightarrow>
     Bbolt_Read unmarshal bucket key out db = (Inl KeyDoesNotExist, kv_put bucket [] db) \<and>
     Bbolt_Update marshal bucket key model db = (Some KeyDoesNotExist, kv_put bucket [] db) \<and>
     Bbolt_Delete bucket key db = (Some KeyDoesNotExist, kv_put bucket [] db) \<and>
     Bbolt_Count bucket db = ((0, None), kv_put bucket [] db) \<and>
     map_of (kv_put bucket [] db) = (map_of db)(bucket \<mapsto> [])"
  by (simp add: Bbolt_Read_def Bbolt_Update_def Bbolt_Delete_def Bbolt_Count_def view_new
      checkBucket_new tx_Bucket_def bucket_KeyN_def map_of_kv_put)

theorem missing_bucket_is_created_witness:
  "map_of [(''users'', [(''u1'', ''\"Ann\"'')])] ''logs'' = None \<and>
   Bbolt_Read sample_unmarshal ''logs'' ''k'' [] [(''users'', [(''u1'', ''\"Ann\"'')])]
     = (Inl KeyDoesNotExist, [(''logs'', []), (''users'', [(''u1'', ''\"Ann\"'')])]) \<and>
   Bbolt_Update sample_marshal ''logs'' ''k'' ''v'' [(''users'', [(''u1'', ''\"Ann\"'')])]
     = (Some KeyDoesNotExist, [(''logs'', []), (''users'', [(''u1'', ''\"Ann\"'')])]) \<and>
   Bbolt_Delete ''logs'' ''k'' [(''users'', [(''u1'', ''\"Ann\"'')])]
     = (Some KeyDoesNotExist, [(''logs'', []), (''users'', [(''u1'', ''\"Ann\"'')])]) \<and>
   Bbolt_Count ''logs'' [(''users'', [(''u1'', ''\"Ann\"'')])]
     = ((0, None), [(''logs'', []), (''users'', [(''u1'', ''\"Ann\"'')])])"
  using missing_bucket_is_created [of "''logs''" "[(''users'', [(''u1'', ''\"Ann\"'')])]"
      sample_unmarshal "''k''" "[]" sample_marshal "''v''"]
  by simp

text \<open>
  C7. \<open>Drop\<close> of a bucket that does not exist: on LevelDB (no record under any key of
  the bucket) it returns nil and the store as it was; on bbolt (no bucket of that
  name) it returns \<open>ErrBucketNotFound\<close> and the store as it was.
\<close>

theorem drop_missing_bucket:
  "((\<forall>key. Level_record ldb bucket key = None) \<longrightarrow> Level_Drop bucket ldb = (None, ldb)) \<and>
   (map_of bdb bucket = None \<longrightarrow> Bbolt_Drop bucket bdb = (Some ErrBucketNotFound, bdb))"
  by (simp add: Level_Drop_def no_record_no_prefix Bbolt_Drop_def tx_DeleteBucket_def)

theorem drop_missing_bucket_witness:
  "(\<forall>key. Level_record [(''users_u1'', ''\"Ann\"'')] ''logs'' key = None) \<and>
   Level_Drop ''logs'' [(''users_u1'', ''\"Ann\"'')] = (None, [(''users_u1'', ''\"Ann\"'')]) \<and>
   map_of [(''users'', [(''u1'', ''\"Ann\"'')])] ''logs'' = None \<and>
   Bbolt_Drop ''logs'' [(''users'', [(''u1'', ''\"Ann\"'')])]
     = (Some ErrBucketNotFound, [(''users'', [(''u1'', ''\"Ann\"'')])])"
  using drop_missing_bucket [of "[(''users_u1'', ''\"Ann\"'')]" "''logs''"
      "[(''users'', [(''u1'', ''\"Ann\"'')])]"]
  by (simp add: Level_record_def)

text \<open>
  C8. \<open>Count\<close> of a bucket that does not exist yet, its name not empty, returns 0 and
  no error on both adapters.
\<close>

theorem count_missing_bucket:
  "((\<forall>key. Level_record ldb bucket key = None) \<longrightarrow> Level_Count bucket ldb = (0, None)) \<and>
   (bucket \<noteq> [] \<and> map_of bdb bucket = None \<longrightarrow> fst (Bbolt_Count bucket bdb) = (0, None))"
  by (simp add: Level_Count_def no_record_no_prefix Bbolt_Count_def checkBucket_new
      tx_Bucket_def bucket_KeyN_def map_of_kv_put)

theorem count_missing_bucket_witness:
  "(\<forall>key. Level_record [(''users_u1'', ''\"Ann\"'')] ''logs'' key = None) \<and>
   Level_Count ''logs'' [(''users_u1'', ''\"Ann\"'')] = (0, None) \<and>
   map_of [(''users'', [(''u1'', ''\"Ann\"'')])] ''logs'' = None \<and>
   fst (Bbolt_Count ''logs'' [(''users'', [(''u1'', ''\"Ann\"'')])]) = (0, None)"
  using count_missing_bucket [of "[(''users_u1'', ''\"Ann\"'')]" "''logs''"
      "[(''users'', [(''u1'', ''\"Ann\"'')])]"]
  by (simp add: Level_record_def)



text \<open>
  C10. On the LevelDB adapter let \<open>b'\<close> be \<open>b\<close> followed by \<open>_\<close> and any text \<open>t\<close>.
  Every physical key of \<open>b'\<close> starts with \<open>b_\<close>, so the scans of \<open>b\<close> reach the
  records of \<open>b'\<close>: \<open>Count(b)\<close> is \<open>Count(b')\<close> plus the number of the other keys
  that start with \<open>b_\<close>; a record of \<open>b'\<close> under \<open>key\<close> appears in the mapping of
  \<open>Get(b)\<close> under \<open>t_key\<close>, the physical key without \<open>b_\<close>, with a decoding of its
  bytes; and after \<open>Drop(b)\<close> no record of \<open>b'\<close> is left.
\<close>

theorem prefix_scan_leaks:
  "b' = b @ ''_'' @ t \<longrightarrow>
     fst (Level_Count b db) =
       fst (Level_Count b' db) +
       length [kv \<leftarrow> db. prefix (b @ ''_'') (fst kv) \<and> \<not> prefix (b' @ ''_'') (fst kv)] \<and>
     (Level_record db b' key = Some d \<and> Level_Get unmarshal b out db = Inr results \<longrightarrow>
        TrimPrefix (b' @ ''_'' @ key) (b @ ''_'') = t @ ''_'' @ key \<and>
        t @ ''_'' @ key \<in> dom results \<and>
        (kv_inv db \<longrightarrow>
           (\<exists>m0 m'. unmarshal d m0 = Inr m' \<and> results (t @ ''_'' @ key) = Some m'))) \<and>
     Level_record (snd (Level_Drop b db)) b' key = None"
proof (intro impI conjI)
  assume b': "b' = b @ ''_'' @ t"
  have sub: "prefix (b @ ''_'') k" if "prefix (b' @ ''_'') k" for k
    using that unfolding b' by (auto simp: prefix_def)
  show "fst (Level_Count b db) =
       fst (Level_Count b' db) +
       length [kv \<leftarrow> db. prefix (b @ ''_'') (fst kv) \<and> \<not> prefix (b' @ ''_'') (fst kv)]"
    using filter_split_length [of "\<lambda>kv. prefix (b' @ ''_'') (fst kv)"
        "\<lambda>kv. prefix (b @ ''_'') (fst kv)" db] sub
    by (simp add: Level_Count_def Level_Count_loop_length ldb_NewIterator_def)
  have pk: "prefix (b @ ''_'') (b' @ ''_'' @ key)"
    unfolding b' by (simp add: prefix_def)
  then show "Level_record (snd (Level_Drop b db)) b' key = None"
    by (simp add: Level_record_def Level_Drop_prefixed)
  have trim: "TrimPrefix (b' @ ''_'' @ key) (b @ ''_'') = t @ ''_'' @ key"
    unfolding b' by (simp add: TrimPrefix_def)
  {
    assume a: "Level_record db b' key = Some d \<and> Level_Get unmarshal b out db = Inr results"
    then have "(b' @ ''_'' @ key, d) \<in> set db"
      by (auto simp: Level_record_def dest: map_of_SomeD)
    with pk have mem: "(b' @ ''_'' @ key, d) \<in> set (ldb_NewIterator (b @ ''_'') db)"
      by (simp add: ldb_NewIterator_def)
    from a have loop: "Level_Get_loop unmarshal b (ldb_NewIterator (b @ ''_'') db) out Map.empty
        = Inr results"
      by (simp add: Level_Get_def)
    show "TrimPrefix (b' @ ''_'' @ key) (b @ ''_'') = t @ ''_'' @ key"
      by (rule trim)
    from Level_Get_loop_dom [OF loop] mem
    have "TrimPrefix (b' @ ''_'' @ key) (b @ ''_'') \<in> dom results"
      by force
    then show "t @ ''_'' @ key \<in> dom results"
      by (simp only: trim)
    {
      assume inv: "kv_inv db"
      from Level_Get_loop_value [OF loop iterator_distinct [OF inv] _ mem]
      have "\<exists>m0 m'. unmarshal d m0 = Inr m'
          \<and> results (TrimPrefix (b' @ ''_'' @ key) (b @ ''_'')) = Some m'"
        by (auto dest: iterator_prefixed)
      then show "\<exists>m0 m'. unmarshal d m0 = Inr m' \<and> results (t @ ''_'' @ key) = Some m'"
        by (simp only: trim)
    }
  }
qed

theorem prefix_scan_leaks_witness:
  "Level_record [(''a_b_c'', ''\"X\"''), (''a_k'', ''\"Y\"'')] ''a_b'' ''c'' = Some ''\"X\"'' \<and>
   kv_inv [(''a_b_c'', ''\"X\"''), (''a_k'', ''\"Y\"'')] \<and>
   Level_Count ''a_b'' [(''a_b_c'', ''\"X\"''), (''a_k'', ''\"Y\"'')] = (1, None) \<and>
   Level_Count ''a'' [(''a_b_c'', ''\"X\"''), (''a_k'', ''\"Y\"'')] = (2, None) \<and>
   Level_Get sample_unmarshal ''a'' [] [(''a_b_c'', ''\"X\"''), (''a_k'', ''\"Y\"'')]
     = Inr [''b_c'' \<mapsto> ''X'', ''k'' \<mapsto> ''Y''] \<and>
   Level_Drop ''a'' [(''a_b_c'', ''\"X\"''), (''a_k'', ''\"Y\"'')] = (None, []) \<and>
   Level_record (snd (Level_Drop ''a'' [(''a_b_c'', ''\"X\"''), (''a_k'', ''\"Y\"'')])) ''a_b'' ''c''
     = None"
proof -
  let ?L = "[(''a_b_c'', ''\"X\"''), (''a_k'', ''\"Y\"'')]"
  have g: "Level_Get sample_unmarshal ''a'' [] ?L = Inr [''b_c'' \<mapsto> ''X'', ''k'' \<mapsto> ''Y'']"
    by (simp add: Level_Get_def ldb_NewIterator_def TrimPrefix_def sample_unmarshal_def)
  have d: "Level_Drop ''a'' ?L = (None, [])"
    by (simp add: Level_Drop_def ldb_NewIterator_def ldb_Delete_def kv_delete_def)
  have c: "Level_Count ''a_b'' ?L = (1, None)" "Level_Count ''a'' ?L = (2, None)"
    by (simp_all add: Level_Count_def ldb_NewIterator_def)
  from prefix_scan_leaks [of "''a_b''" "''a''" "''b''" ?L "''c''" "''\"X\"''" sample_unmarshal
      "[]" "[''b_c'' \<mapsto> ''X'', ''k'' \<mapsto> ''Y'']"] g d c
  show ?thesis
    by (simp add: Level_record_def kv_inv_def)
qed

end
